theory Spec2Isabelle
  imports Main
begin

section \<open>Data model\<close>

text \<open>
  \<^verbatim>\<open>app/models/user.py\<close> and \<^verbatim>\<open>migrations/versions/001_init.py\<close>: one table of
  users. The primary key and the linkage to the Open Wearables account are UUIDs; only
  their identity matters, so a UUID is a natural number. The source's column \<^verbatim>\<open>id\<close>
  is the field \<open>user_id\<close> here, since \<open>id\<close> is the identity function of HOL.
  The nullable column \<^verbatim>\<open>open_wearables_user_id\<close> is an option.
\<close>

type_synonym uuid = nat

record user =
  user_id :: uuid
  auth0_id :: string
  email :: string
  open_wearables_user_id :: "uuid option"
  created_at :: nat
  updated_at :: nat

text \<open>The table is the list of its rows, in insertion order.\<close>

type_synonym table = "user list"

text \<open>
  The exceptions that the modelled code raises or lets through:
  \<^item> \<open>ValueError\<close>, \<open>TypeError\<close>: Python's own (argument checks, \<^verbatim>\<open>uuid.UUID\<close>);
  \<^item> \<open>OpenWearablesConfigurationError\<close>: the client has no API key;
  \<^item> \<open>HTTPError\<close>: \<^verbatim>\<open>httpx\<close> failed to reach the platform, or
    \<^verbatim>\<open>raise_for_status\<close> saw a non-success status;
  \<^item> \<open>IntegrityError\<close>: the datastore refused a row that breaks a primary-key or
    unique constraint of the migration;
  \<^item> \<open>OperationalError\<close>: the datastore could not run a statement;
  \<^item> \<open>NoResultFound\<close>: a row that was to be re-read is not there;
  \<^item> \<open>Unauthorized\<close>: the identity provider rejected the bearer token.
\<close>

datatype error =
    ValueError
  | TypeError
  | OpenWearablesConfigurationError
  | HTTPError
  | IntegrityError
  | OperationalError
  | NoResultFound
  | Unauthorized

section \<open>Identity Resolver\<close>

text \<open>
  Modelled from the spec: \<^verbatim>\<open>UserRepository.get_user_by_auth0_id\<close> (the repository
  module is not part of the sources at hand). It looks the user up by the unique column
  \<^verbatim>\<open>auth0_id\<close>.
\<close>

definition get_user_by_auth0_id :: "table \<Rightarrow> string \<Rightarrow> user option" where
  "get_user_by_auth0_id db a = find (\<lambda>r. auth0_id r = a) db"

text \<open>
  The lookup by primary key, as in \<^verbatim>\<open>WearablesService.get_user_by_id\<close>
  (\<^verbatim>\<open>db.query(User).filter(User.id == user_id).first()\<close>).
\<close>

definition get_user_by_id :: "table \<Rightarrow> uuid \<Rightarrow> user option" where
  "get_user_by_id db i = find (\<lambda>r. user_id r = i) db"

text \<open>
  Modelled from the spec: \<^verbatim>\<open>AppService.update\<close> with \<^verbatim>\<open>UserUpdate(email=...)\<close> (the
  generic service and repository are not part of the sources at hand). It writes the new
  email to the row with the given primary key, the persistence layer stamps
  \<^verbatim>\<open>updated_at\<close>, and the refreshed row is returned. The migration declares
  \<^verbatim>\<open>UniqueConstraint('email')\<close>: the datastore refuses the write when another row holds
  that email already.
\<close>

definition update :: "table \<Rightarrow> nat \<Rightarrow> uuid \<Rightarrow> string \<Rightarrow> table \<times> (error + user)" where
  "update db now i e =
     (if list_ex (\<lambda>r. user_id r \<noteq> i \<and> email r = e) db then (db, Inl IntegrityError)
      else
        let db' = map (\<lambda>r. if user_id r = i then r\<lparr>email := e, updated_at := now\<rparr> else r) db
        in case get_user_by_id db' i of
             None \<Rightarrow> (db, Inl NoResultFound)
           | Some r \<Rightarrow> (db', Inr r))"

text \<open>
  Modelled from the spec: \<^verbatim>\<open>AppService.create\<close> with
  \<^verbatim>\<open>UserCreate(auth0_id=..., email=...)\<close>. The new row gets a generated primary key
  (\<open>fresh\<close>), both timestamps, and no linkage. The migration's primary key and its two
  unique constraints make the datastore refuse a row that repeats an id, an
  \<^verbatim>\<open>auth0_id\<close> or an email.
\<close>

definition create :: "table \<Rightarrow> uuid \<Rightarrow> nat \<Rightarrow> string \<Rightarrow> string \<Rightarrow> table \<times> (error + user)" where
  "create db fresh now a e =
     (if list_ex (\<lambda>r. user_id r = fresh \<or> auth0_id r = a \<or> email r = e) db
      then (db, Inl IntegrityError)
      else
        let u = \<lparr>user_id = fresh, auth0_id = a, email = e, open_wearables_user_id = None,
                 created_at = now, updated_at = now\<rparr>
        in (db @ [u], Inr u))"

text \<open>
  \<^verbatim>\<open>UserService.get_or_create_user\<close>. Python's \<^verbatim>\<open>not s\<close> on a string is the test
  for the empty string. The result is the table after the call and what the call
  returned or raised.
\<close>

definition get_or_create_user ::
  "table \<Rightarrow> uuid \<Rightarrow> nat \<Rightarrow> string \<Rightarrow> string \<Rightarrow> table \<times> (error + user)" where
  "get_or_create_user db fresh now a e =
     (if a = [] \<or> e = [] then (db, Inl ValueError)
      else case get_user_by_auth0_id db a of
             Some u \<Rightarrow>
               if email u \<noteq> e then update db now (user_id u) e
               else (db, Inr u)
           | None \<Rightarrow> create db fresh now a e)"

section \<open>Open Wearables client\<close>

text \<open>
  \<^verbatim>\<open>app/services/open_wearables_client.py\<close>. The platform answers with JSON objects;
  the code reads string fields of them and hands one to \<^verbatim>\<open>uuid.UUID\<close>. A field's
  text is kept up to what \<^verbatim>\<open>uuid.UUID\<close> makes of it: \<open>JUuid u\<close> is a text that
  parses to the UUID \<open>u\<close> (so it is not empty), \<open>JStr s\<close> a text that does not
  parse. A missing key and JSON's \<^verbatim>\<open>null\<close> both read as Python's \<^verbatim>\<open>None\<close>, the
  \<open>None\<close> of \<open>dict_get\<close>.
\<close>

datatype jval = JStr string | JUuid uuid

type_synonym dict = "(string \<times> jval) list"

definition dict_get :: "dict \<Rightarrow> string \<Rightarrow> jval option" where
  "dict_get d k = map_of d k"

fun truthy :: "jval option \<Rightarrow> bool" where
  "truthy None = False"
| "truthy (Some (JStr s)) = (s \<noteq> [])"
| "truthy (Some (JUuid u)) = True"

definition py_or :: "jval option \<Rightarrow> jval option \<Rightarrow> jval option" where
  "py_or x y = (if truthy x then x else y)"

text \<open>
  \<^verbatim>\<open>uuid.UUID(x)\<close>: \<^verbatim>\<open>TypeError\<close> without an argument value, \<^verbatim>\<open>ValueError\<close> on
  a badly formed text.
\<close>

fun UUID :: "jval option \<Rightarrow> error + uuid" where
  "UUID None = Inl TypeError"
| "UUID (Some (JStr s)) = Inl ValueError"
| "UUID (Some (JUuid u)) = Inr u"

text \<open>
  What a call does to the world outside the table is recorded as a list of events, in
  order: the HTTP requests sent to the platform, the statements sent to the datastore
  (the conditional update with its row count, the commit, the re-read of a row), and the
  log lines by level.
\<close>

datatype event =
    HttpGet string
  | HttpPost string string
  | SqlUpdate uuid uuid nat
  | SqlCommit
  | SqlRefresh uuid
  | LogInfo
  | LogWarning
  | LogError

text \<open>
  The surroundings of one registration call: the configured API key
  (\<^verbatim>\<open>settings.open_wearables_api_key\<close>), what the platform answers to
  \<^verbatim>\<open>GET /api/v1/users?external_user_id=...&limit=1\<close> (an \<^verbatim>\<open>httpx\<close> failure, or the
  \<^verbatim>\<open>items\<close> of the body) and to \<^verbatim>\<open>POST /api/v1/users\<close> (a failure, or the body), and
  whether the datastore runs the three things asked of it.
\<close>

record ow_env =
  api_key :: string
  get_users :: "string \<Rightarrow> error + dict list"
  post_users :: "string \<Rightarrow> string \<Rightarrow> error + dict"
  execute_ok :: bool
  commit_ok :: bool
  refresh_ok :: bool

text \<open>
  \<^verbatim>\<open>OpenWearablesClient.find_user_by_external_id\<close>. The headers are built before the
  request is sent, and building them raises when no API key is configured.
\<close>

definition find_user_by_external_id ::
  "ow_env \<Rightarrow> string \<Rightarrow> event list \<times> (error + dict option)" where
  "find_user_by_external_id env external_id =
     (if api_key env = [] then ([], Inl OpenWearablesConfigurationError)
      else case get_users env external_id of
             Inl e \<Rightarrow> ([HttpGet external_id], Inl e)
           | Inr items \<Rightarrow>
               ([HttpGet external_id],
                Inr (case items of [] \<Rightarrow> None | x # _ \<Rightarrow> Some x)))"

text \<open>
  \<^verbatim>\<open>OpenWearablesClient.create_user\<close>. \<^verbatim>\<open>if existing:\<close> holds for a dictionary
  that is not empty. The per-email \<^verbatim>\<open>asyncio.Lock\<close> is taken and released around the
  body; within one call it changes nothing.
\<close>

definition create_user :: "ow_env \<Rightarrow> string \<Rightarrow> string \<Rightarrow> event list \<times> (error + dict)" where
  "create_user env external_id mail =
     (case find_user_by_external_id env external_id of
        (evs, Inl e) \<Rightarrow> (evs, Inl e)
      | (evs, Inr existing) \<Rightarrow>
          (case existing of
             Some (f # fs) \<Rightarrow> (evs @ [LogInfo], Inr (f # fs))
           | _ \<Rightarrow>
               if api_key env = [] then (evs, Inl OpenWearablesConfigurationError)
               else (evs @ [HttpPost external_id mail], post_users env external_id mail)))"

section \<open>Registration Coordinator\<close>

text \<open>
  Lines 67 to 72 of \<^verbatim>\<open>user_service.py\<close>: the upstream call and the reading of the id
  from its answer, \<^verbatim>\<open>UUID(result.get("id") or result.get("user_id"))\<close>.
\<close>

definition request_ow_user_id :: "ow_env \<Rightarrow> user \<Rightarrow> event list \<times> (error + uuid)" where
  "request_ow_user_id env u =
     (case create_user env (auth0_id u) (email u) of
        (evs, Inl e) \<Rightarrow> (evs, Inl e)
      | (evs, Inr result) \<Rightarrow>
          (evs, UUID (py_or (dict_get result ''id'') (dict_get result ''user_id''))))"

text \<open>
  The statement of lines 77 to 82,
  \<^verbatim>\<open>UPDATE user SET open_wearables_user_id = :v WHERE id = :id AND open_wearables_user_id IS NULL\<close>,
  with its row count.
\<close>

definition conditional_update :: "table \<Rightarrow> uuid \<Rightarrow> uuid \<Rightarrow> table \<times> nat" where
  "conditional_update db i v =
     (map (\<lambda>r. if user_id r = i \<and> open_wearables_user_id r = None
                then r\<lparr>open_wearables_user_id := Some v\<rparr> else r) db,
      length (filter (\<lambda>r. user_id r = i \<and> open_wearables_user_id r = None) db))"

text \<open>
  Lines 83 and 84: \<^verbatim>\<open>execute\<close> and \<^verbatim>\<open>commit\<close>. The statement takes effect for
  the other sessions when it is committed; a failure of either leaves the table as it was.
\<close>

definition execute_and_commit ::
  "ow_env \<Rightarrow> table \<Rightarrow> user \<Rightarrow> uuid \<Rightarrow> table \<times> event list \<times> (error + nat)" where
  "execute_and_commit env db u ow_user_id =
     (if \<not> execute_ok env then (db, [], Inl OperationalError)
      else
        let (db', rowcount) = conditional_update db (user_id u) ow_user_id
        in if \<not> commit_ok env
           then (db, [SqlUpdate (user_id u) ow_user_id rowcount], Inl OperationalError)
           else (db', [SqlUpdate (user_id u) ow_user_id rowcount, SqlCommit], Inr rowcount))"

text \<open>Line 94: \<^verbatim>\<open>db_session.refresh(user)\<close> reads the row of the user's primary key again.\<close>

definition refresh :: "ow_env \<Rightarrow> table \<Rightarrow> user \<Rightarrow> event list \<times> (error + user)" where
  "refresh env db u =
     (if \<not> refresh_ok env then ([], Inl OperationalError)
      else case get_user_by_id db (user_id u) of
             None \<Rightarrow> ([SqlRefresh (user_id u)], Inl NoResultFound)
           | Some r \<Rightarrow> ([SqlRefresh (user_id u)], Inr r))"

text \<open>
  \<^verbatim>\<open>UserService.register_with_open_wearables\<close>. A UUID is always true in Python, so
  \<^verbatim>\<open>if user.open_wearables_user_id\<close> asks whether the field is set. Every exception
  inside the \<^verbatim>\<open>try\<close> is logged at level error and raised again. The argument
  \<open>u\<close> is the caller's object, which may be older than the row in the table.
\<close>

definition register_with_open_wearables ::
  "ow_env \<Rightarrow> table \<Rightarrow> user \<Rightarrow> table \<times> event list \<times> (error + user)" where
  "register_with_open_wearables env db u =
     (if open_wearables_user_id u \<noteq> None then (db, [LogInfo], Inr u)
      else case request_ow_user_id env u of
             (evs, Inl e) \<Rightarrow> (db, evs @ [LogError], Inl e)
           | (evs, Inr ow_user_id) \<Rightarrow>
               (case execute_and_commit env db u ow_user_id of
                  (db', evs', Inl e) \<Rightarrow> (db', evs @ evs' @ [LogError], Inl e)
                | (db', evs', Inr rowcount) \<Rightarrow>
                    (case refresh env db' u of
                       (evs'', Inl e) \<Rightarrow> (db', evs @ evs' @ [LogInfo] @ evs'' @ [LogError], Inl e)
                     | (evs'', Inr r) \<Rightarrow> (db', evs @ evs' @ [LogInfo] @ evs'', Inr r))))"

text \<open>\<^verbatim>\<open>WearablesService.register_user\<close> and its response schema.\<close>

record RegisterOpenWearablesResponse =
  response_open_wearables_user_id :: "uuid option"
  already_registered :: bool

definition register_user ::
  "ow_env \<Rightarrow> table \<Rightarrow> user \<Rightarrow> table \<times> event list \<times> (error + RegisterOpenWearablesResponse)" where
  "register_user env db u =
     (if open_wearables_user_id u \<noteq> None
      then (db, [], Inr \<lparr>response_open_wearables_user_id = open_wearables_user_id u,
                        already_registered = True\<rparr>)
      else case register_with_open_wearables env db u of
             (db', evs, Inl e) \<Rightarrow> (db', evs, Inl e)
           | (db', evs, Inr updated_user) \<Rightarrow>
               (db', evs, Inr \<lparr>response_open_wearables_user_id =
                                 open_wearables_user_id updated_user,
                               already_registered = False\<rparr>))"

text \<open>The events that reach the platform or write to the datastore.\<close>

fun is_upstream_call :: "event \<Rightarrow> bool" where
  "is_upstream_call (HttpGet _) = True"
| "is_upstream_call (HttpPost _ _) = True"
| "is_upstream_call _ = False"

fun is_write :: "event \<Rightarrow> bool" where
  "is_write (SqlUpdate _ _ _) = True"
| "is_write SqlCommit = True"
| "is_write _ = False"

section \<open>Authentication dependency\<close>










section \<open>Concurrent callers\<close>

text \<open>
  Each request is a task of its own, and the tasks of several requests interleave at the
  points where a call waits: on the platform's answer and on the datastore. One call of
  \<^verbatim>\<open>register_with_open_wearables\<close> is therefore three steps, each of them one of the
  pieces the sequential function is made of:
  \<^item> from \<open>Ready\<close>: the fast-path check and the upstream request;
  \<^item> from \<open>Requested\<close>: the conditional update and its commit, which the datastore runs
    as one statement against the row (the row count is kept);
  \<^item> from \<open>Written\<close>: the re-read of the row, after which the call has returned or
    raised (\<open>Finished\<close>, with the row count of its update when it made one).
\<close>

datatype task =
    Ready user
  | Requested user uuid
  | Written user nat
  | Finished "nat option" "error + user"

definition task_step :: "ow_env \<Rightarrow> table \<Rightarrow> task \<Rightarrow> table \<times> task" where
  "task_step env db t =
     (case t of
        Ready u \<Rightarrow>
          if open_wearables_user_id u \<noteq> None then (db, Finished None (Inr u))
          else (case request_ow_user_id env u of
                  (evs, Inl e) \<Rightarrow> (db, Finished None (Inl e))
                | (evs, Inr ow_user_id) \<Rightarrow> (db, Requested u ow_user_id))
      | Requested u ow_user_id \<Rightarrow>
          (case execute_and_commit env db u ow_user_id of
             (db', evs, Inl e) \<Rightarrow> (db', Finished None (Inl e))
           | (db', evs, Inr rowcount) \<Rightarrow> (db', Written u rowcount))
      | Written u rowcount \<Rightarrow>
          (case refresh env db u of
             (evs, Inl e) \<Rightarrow> (db, Finished (Some rowcount) (Inl e))
           | (evs, Inr r) \<Rightarrow> (db, Finished (Some rowcount) (Inr r)))
      | Finished rowcount res \<Rightarrow> (db, t))"

text \<open>
  The system is the table and the calls in flight, each with its own surroundings. An
  action lets one call take its next step, starts a new call on some caller's object, or
  runs the Identity Resolver.
\<close>

type_synonym system = "table \<times> (ow_env \<times> task) list"

datatype action =
    Advance nat
  | Begin ow_env user
  | Resolve uuid nat string string

fun act :: "action \<Rightarrow> system \<Rightarrow> system" where
  "act (Advance i) (db, ts) =
     (if i < length ts
      then (case task_step (fst (ts ! i)) db (snd (ts ! i)) of
              (db', t') \<Rightarrow> (db', ts[i := (fst (ts ! i), t')]))
      else (db, ts))"
| "act (Begin env u) (db, ts) = (db, ts @ [(env, Ready u)])"
| "act (Resolve fresh now a e) (db, ts) = (fst (get_or_create_user db fresh now a e), ts)"

fun run :: "action list \<Rightarrow> system \<Rightarrow> system" where
  "run [] s = s"
| "run (a # as) s = run as (act a s)"

text \<open>The linkage that the table holds for a primary key.\<close>

definition linkage :: "table \<Rightarrow> uuid \<Rightarrow> uuid option" where
  "linkage db i = (case get_user_by_id db i of None \<Rightarrow> None | Some r \<Rightarrow> open_wearables_user_id r)"

text \<open>What a call has to show for itself: the row count of its update and the id it returned.\<close>

fun rowcount_of :: "task \<Rightarrow> nat option" where
  "rowcount_of (Written u rowcount) = Some rowcount"
| "rowcount_of (Finished rowcount res) = rowcount"
| "rowcount_of _ = None"

fun returned_id :: "task \<Rightarrow> uuid option" where
  "returned_id (Finished rowcount (Inr r)) = open_wearables_user_id r"
| "returned_id _ = None"

fun has_returned :: "task \<Rightarrow> bool" where
  "has_returned (Finished rowcount (Inr r)) = True"
| "has_returned _ = False"

text \<open>
  The constraints of the migration on a table: the primary key and the two unique
  columns. Rows come into being through the Identity Resolver only, which takes no empty
  \<^verbatim>\<open>auth0_id\<close> and no empty email.
\<close>

definition valid_table :: "table \<Rightarrow> bool" where
  "valid_table db =
     (distinct (map user_id db) \<and> distinct (map auth0_id db) \<and> distinct (map email db)
      \<and> list_all (\<lambda>r. auth0_id r \<noteq> [] \<and> email r \<noteq> []) db)"

text \<open>
  How far a call has come, and surroundings in which a call on the user \<open>u\<close> meets no
  failure: the platform answers with an id that parses, and the datastore runs what it is
  asked.
\<close>

fun stage :: "task \<Rightarrow> nat" where
  "stage (Ready u) = 0"
| "stage (Requested u v) = 1"
| "stage (Written u rowcount) = 2"
| "stage (Finished rowcount res) = 3"

definition good_env :: "ow_env \<Rightarrow> user \<Rightarrow> bool" where
  "good_env env u =
     (\<not> isl (snd (request_ow_user_id env u)) \<and> execute_ok env \<and> commit_ok env \<and> refresh_ok env)"

text \<open>A call whose conditional update affected one row, and one whose update affected none.\<close>

definition won :: "ow_env \<times> task \<Rightarrow> bool" where
  "won c = (rowcount_of (snd c) = Some 1)"

definition lost :: "ow_env \<times> task \<Rightarrow> bool" where
  "lost c = (rowcount_of (snd c) = Some 0)"

text \<open>
  The invariant of concurrent calls on one user \<open>u\<close> in good surroundings, relative to
  the linkage \<open>l\<close> that the table holds for \<open>u\<close>: a call that has made its update
  did so with row count zero or one and the row is linked since, and a call that has
  returned has returned that linkage. For the system: the primary key holds, the row is
  there, every call satisfies its invariant, and the number of updates that affected a
  row is one when the row is linked and zero when it is not.
\<close>

fun task_inv :: "user \<Rightarrow> uuid option \<Rightarrow> task \<Rightarrow> bool" where
  "task_inv u l (Ready u') = (u' = u)"
| "task_inv u l (Requested u' v) = (u' = u)"
| "task_inv u l (Written u' rowcount) = (u' = u \<and> l \<noteq> None \<and> rowcount \<le> 1)"
| "task_inv u l (Finished rowcount res) =
     (l \<noteq> None \<and> (case rowcount of None \<Rightarrow> False | Some k \<Rightarrow> k \<le> 1)
      \<and> (case res of Inl e \<Rightarrow> False | Inr r \<Rightarrow> open_wearables_user_id r = l))"

definition system_inv :: "user \<Rightarrow> system \<Rightarrow> bool" where
  "system_inv u s =
     (case s of (db, ts) \<Rightarrow>
        distinct (map user_id db) \<and> get_user_by_id db (user_id u) \<noteq> None
        \<and> list_all (\<lambda>c. good_env (fst c) u \<and> task_inv u (linkage db (user_id u)) (snd c)) ts
        \<and> length (filter won ts) = (if linkage db (user_id u) = None then 0 else 1))"

section \<open>Example data\<close>

text \<open>Two users as the Identity Resolver creates them, for the concrete runs below.\<close>

definition alice :: user where
  "alice = \<lparr>user_id = 1, auth0_id = ''abc'', email = ''a@x.com'',
            open_wearables_user_id = None, created_at = 0, updated_at = 0\<rparr>"

definition bob :: user where
  "bob = \<lparr>user_id = 2, auth0_id = ''def'', email = ''b@x.com'',
          open_wearables_user_id = None, created_at = 0, updated_at = 0\<rparr>"

text \<open>
  Surroundings of a registration call: a platform that knows no account yet and creates
  one, a platform that cannot be reached, a platform that knows the account already, and
  a datastore that fails on the re-read of the row only.
\<close>

definition ok_env :: ow_env where
  "ok_env = \<lparr>api_key = ''key'',
             get_users = (\<lambda>x. Inr []),
             post_users = (\<lambda>x m. Inr [(''id'', JUuid 123)]),
             execute_ok = True, commit_ok = True, refresh_ok = True\<rparr>"

definition down_env :: ow_env where
  "down_env = \<lparr>api_key = ''key'',
               get_users = (\<lambda>x. Inl HTTPError),
               post_users = (\<lambda>x m. Inr [(''id'', JUuid 123)]),
               execute_ok = True, commit_ok = True, refresh_ok = True\<rparr>"

definition found_env :: ow_env where
  "found_env = \<lparr>api_key = ''key'',
                get_users = (\<lambda>x. Inr [[(''id'', JUuid 77), (''external_user_id'', JStr x)]]),
                post_users = (\<lambda>x m. Inl HTTPError),
                execute_ok = True, commit_ok = True, refresh_ok = True\<rparr>"




section \<open>Lookups in a table\<close>

lemma find_user_id_mem:
  "distinct (map user_id db) \<Longrightarrow> u \<in> set db \<Longrightarrow> find (\<lambda>r. user_id r = user_id u) db = Some u"
  by (induction db) auto

lemma get_user_by_id_mem:
  "distinct (map user_id db) \<Longrightarrow> u \<in> set db \<Longrightarrow> get_user_by_id db (user_id u) = Some u"
  by (simp add: get_user_by_id_def find_user_id_mem)

lemma get_user_by_auth0_id_Some:
  "get_user_by_auth0_id db a = Some u \<Longrightarrow> u \<in> set db \<and> auth0_id u = a"
  by (auto simp: get_user_by_auth0_id_def find_Some_iff)

lemma get_user_by_id_Some:
  "get_user_by_id db i = Some u \<Longrightarrow> u \<in> set db \<and> user_id u = i"
  by (auto simp: get_user_by_id_def find_Some_iff)

lemma find_map_user_id:
  "(\<And>r. user_id (f r) = user_id r) \<Longrightarrow>
   find (\<lambda>r. user_id r = i) (map f db) = map_option f (find (\<lambda>r. user_id r = i) db)"
  by (induction db) auto

lemma find_map_auth0_id:
  "(\<And>r. auth0_id (f r) = auth0_id r) \<Longrightarrow>
   find (\<lambda>r. auth0_id r = a) (map f db) = map_option f (find (\<lambda>r. auth0_id r = a) db)"
  by (induction db) auto

lemma valid_table_example: "valid_table [alice, bob]"
  by (simp add: valid_table_def alice_def bob_def)

lemma alice_by_auth0_id: "get_user_by_auth0_id [alice, bob] ''abc'' = Some alice"
  by (simp add: get_user_by_auth0_id_def alice_def)

section \<open>Tables that the system reaches\<close>

text \<open>
  The empty table is valid, and the resolver, the coordinator and every step of a call
  in flight keep a table valid. So every table that the system reaches from the empty
  one is valid, and a property of valid tables is a property of every table that the
  code meets.
\<close>

lemma valid_table_empty: "valid_table []"
  by (simp add: valid_table_def)

lemma update_emails_distinct:
  "distinct (map user_id db) \<Longrightarrow> distinct (map email db) \<Longrightarrow>
   \<not> list_ex (\<lambda>r. user_id r \<noteq> i \<and> email r = e) db \<Longrightarrow>
   distinct (map email (map (\<lambda>r. if user_id r = i then r\<lparr>email := e, updated_at := now\<rparr> else r) db))"
proof (induction db)
  case Nil
  then show ?case by simp
next
  case (Cons x xs)
  then show ?case by (auto simp: list_ex_iff image_iff)
qed

lemma valid_table_update:
  assumes "valid_table db" and "e \<noteq> []"
  shows "valid_table (fst (update db now i e))"
proof (cases "list_ex (\<lambda>r. user_id r \<noteq> i \<and> email r = e) db")
  case True
  with assms show ?thesis by (simp add: update_def)
next
  case False
  let ?f = "\<lambda>r. if user_id r = i then r\<lparr>email := e, updated_at := now\<rparr> else r"
  have ids: "map user_id (map ?f db) = map user_id db" by (simp add: comp_def)
  have auths: "map auth0_id (map ?f db) = map auth0_id db" by (simp add: comp_def)
  have emails: "distinct (map email (map ?f db))"
    using assms(1) False by (intro update_emails_distinct) (simp_all add: valid_table_def)
  have ne: "list_all (\<lambda>r. auth0_id r \<noteq> [] \<and> email r \<noteq> []) (map ?f db)"
    using assms by (auto simp: valid_table_def list_all_iff)
  from assms(1) ids auths emails ne have "valid_table (map ?f db)"
    unfolding valid_table_def by metis
  with assms(1) False show ?thesis
    by (auto simp add: update_def Let_def split: option.splits)
qed

lemma valid_table_create:
  assumes "valid_table db" and "a \<noteq> []" and "e \<noteq> []"
  shows "valid_table (fst (create db fresh now a e))"
  using assms by (auto simp add: create_def valid_table_def list_ex_iff Let_def)

lemma valid_table_get_or_create_user:
  "valid_table db \<Longrightarrow> valid_table (fst (get_or_create_user db fresh now a e))"
  by (auto simp add: get_or_create_user_def valid_table_update valid_table_create
           split: option.splits)

lemma valid_table_conditional_update:
  assumes "valid_table db"
  shows "valid_table (fst (conditional_update db i v))"
proof -
  let ?f = "\<lambda>r. if user_id r = i \<and> open_wearables_user_id r = None
                then r\<lparr>open_wearables_user_id := Some v\<rparr> else r"
  have "map user_id (map ?f db) = map user_id db" "map auth0_id (map ?f db) = map auth0_id db"
       "map email (map ?f db) = map email db"
    by (simp_all add: comp_def)
  moreover have "list_all (\<lambda>r. auth0_id r \<noteq> [] \<and> email r \<noteq> []) (map ?f db)"
    using assms by (auto simp: valid_table_def list_all_iff)
  ultimately have "valid_table (map ?f db)"
    using assms unfolding valid_table_def by metis
  then show ?thesis by (simp add: conditional_update_def)
qed

lemma valid_table_execute_and_commit:
  "valid_table db \<Longrightarrow> execute_and_commit env db u v = (db', evs, res) \<Longrightarrow> valid_table db'"
  using valid_table_conditional_update [of db "user_id u" v]
  by (auto simp add: execute_and_commit_def split: if_splits prod.splits)

lemma valid_table_task_step:
  "valid_table db \<Longrightarrow> valid_table (fst (task_step env db t))"
  by (cases t) (auto simp add: task_step_def split: if_splits prod.splits sum.splits
                     dest: valid_table_execute_and_commit)

lemma valid_table_register:
  "valid_table db \<Longrightarrow> valid_table (fst (register_with_open_wearables env db u))"
  by (auto simp add: register_with_open_wearables_def split: if_splits prod.splits sum.splits
           dest: valid_table_execute_and_commit)

lemma valid_table_act: "valid_table (fst s) \<Longrightarrow> valid_table (fst (act a s))"
proof (cases s)
  case (Pair db ts)
  assume v: "valid_table (fst s)"
  show ?thesis
  proof (cases a)
    case (Advance i)
    with Pair v valid_table_task_step [of db "fst (ts ! i)" "snd (ts ! i)"] show ?thesis
      by (auto split: prod.splits)
  next
    case (Begin env u)
    with Pair v show ?thesis by simp
  next
    case (Resolve fresh now x e)
    with Pair v show ?thesis by (simp add: valid_table_get_or_create_user)
  qed
qed

lemma valid_table_run: "valid_table (fst s) \<Longrightarrow> valid_table (fst (run acts s))"
  by (induction acts arbitrary: s) (simp_all add: valid_table_act)

lemma valid_table_reachable: "valid_table (fst (run acts ([], [])))"
  by (simp add: valid_table_run valid_table_empty)

section \<open>Properties of the Identity Resolver\<close>

text \<open>
  Claim C7. A call of the Identity Resolver in which the external identity id or the
  email is empty fails with the invalid-input error (Python's \<open>ValueError\<close>), and the
  table is left as it was: no row is created or updated.
\<close>

theorem C7_empty_input_rejected:
  "a = [] \<or> e = [] \<Longrightarrow> get_or_create_user db fresh now a e = (db, Inl ValueError)"
  by (simp add: get_or_create_user_def)

theorem C7_empty_input_rejected_witness:
  "get_or_create_user [] 1 0 [] ''a@x.com'' = ([], Inl ValueError)
   \<and> get_or_create_user [] 1 0 ''abc'' [] = ([], Inl ValueError)"
  using C7_empty_input_rejected [of "[]" "''a@x.com''" "[]" 1 0]
        C7_empty_input_rejected [of "''abc''" "[]" "[]" 1 0]
  by simp

text \<open>
  The update branch of the resolver, when the datastore accepts the new email: the row of
  the user found gets the email and the time stamp, and that row is returned.
\<close>

lemma resolver_updates_row:
  assumes "valid_table db"
      and "get_user_by_auth0_id db a = Some u"
      and "email u \<noteq> e"
      and "e \<noteq> []"
      and "\<not> list_ex (\<lambda>r. email r = e) db"
  shows "get_or_create_user db fresh now a e =
           (map (\<lambda>r. if user_id r = user_id u then r\<lparr>email := e, updated_at := now\<rparr> else r) db,
            Inr (u\<lparr>email := e, updated_at := now\<rparr>))"
proof -
  let ?f = "\<lambda>r. if user_id r = user_id u then r\<lparr>email := e, updated_at := now\<rparr> else r"
  from assms(2) have mem: "u \<in> set db" and a: "auth0_id u = a"
    by (simp_all add: get_user_by_auth0_id_Some)
  from assms(1) mem have ne: "auth0_id u \<noteq> []"
    by (simp add: valid_table_def list_all_iff)
  from assms(1) have d: "distinct (map user_id db)" by (simp add: valid_table_def)
  have no: "\<not> list_ex (\<lambda>r. user_id r \<noteq> user_id u \<and> email r = e) db"
    using assms(5) by (auto simp: list_ex_iff)
  have "get_user_by_id (map ?f db) (user_id u) = map_option ?f (get_user_by_id db (user_id u))"
    unfolding get_user_by_id_def by (rule find_map_user_id) simp
  also have "\<dots> = Some (u\<lparr>email := e, updated_at := now\<rparr>)"
    using d mem by (simp add: get_user_by_id_mem)
  finally have "update db now (user_id u) e = (map ?f db, Inr (u\<lparr>email := e, updated_at := now\<rparr>))"
    using no by (simp add: update_def)
  with a ne assms(2,3,4) show ?thesis
    by (simp add: get_or_create_user_def)
qed

text \<open>
  Claim C6, as amended. For a user that exists under the external identity id, a call of
  the Identity Resolver with a non-empty email that differs from the stored one and that
  no row of the table holds updates the stored email and returns the refreshed row: the
  returned user has the new email and the id of the row found, it is what the table now
  holds under the external identity id, and no other row has changed.
\<close>

theorem C6_email_updated:
  assumes "valid_table db"
      and "get_user_by_auth0_id db a = Some u"
      and "email u \<noteq> e"
      and "e \<noteq> []"
      and "\<not> list_ex (\<lambda>r. email r = e) db"
  shows "\<exists>db' u'. get_or_create_user db fresh now a e = (db', Inr u')
           \<and> u' = u\<lparr>email := e, updated_at := now\<rparr>
           \<and> email u' = e \<and> user_id u' = user_id u
           \<and> get_user_by_auth0_id db' a = Some u'
           \<and> db' = map (\<lambda>r. if user_id r = user_id u
                              then r\<lparr>email := e, updated_at := now\<rparr> else r) db"
proof -
  let ?f = "\<lambda>r. if user_id r = user_id u then r\<lparr>email := e, updated_at := now\<rparr> else r"
  have "get_user_by_auth0_id (map ?f db) a = map_option ?f (get_user_by_auth0_id db a)"
    unfolding get_user_by_auth0_id_def by (rule find_map_auth0_id) simp
  then have "get_user_by_auth0_id (map ?f db) a = Some (u\<lparr>email := e, updated_at := now\<rparr>)"
    using assms(2) by simp
  with resolver_updates_row [OF assms, of fresh now] show ?thesis by simp
qed

theorem C6_email_updated_witness:
  "get_or_create_user [alice, bob] 3 7 ''abc'' ''c@x.com''
     = ([alice\<lparr>email := ''c@x.com'', updated_at := 7\<rparr>, bob],
        Inr (alice\<lparr>email := ''c@x.com'', updated_at := 7\<rparr>))"
proof -
  have n: "email alice \<noteq> ''c@x.com''" by (simp add: alice_def)
  have m: "''c@x.com'' \<noteq> []" by simp
  have x: "\<not> list_ex (\<lambda>r. email r = ''c@x.com'') [alice, bob]"
    by (simp add: alice_def bob_def)
  from C6_email_updated [OF valid_table_example alice_by_auth0_id n m x, of 3 7]
  show ?thesis by (auto simp add: alice_def bob_def)
qed

text \<open>
  Claim C6, as stated, fails where the new email is the email of another user: the
  datastore refuses the write, the call raises, and the stored email stays.
\<close>

theorem C6_email_taken_counterexample:
  "valid_table [alice, bob]
   \<and> get_user_by_auth0_id [alice, bob] ''abc'' = Some alice
   \<and> email alice \<noteq> ''b@x.com''
   \<and> get_or_create_user [alice, bob] 3 7 ''abc'' ''b@x.com'' = ([alice, bob], Inl IntegrityError)"
  by (simp add: valid_table_def get_or_create_user_def get_user_by_auth0_id_def update_def
        alice_def bob_def)

text \<open>
  Claim C8. For a user that exists under the external identity id and whose stored email
  is the supplied one, the Identity Resolver returns that user and writes nothing: the
  table after the call is the table before it, so no row is created and every field of
  every row is as it was.
\<close>

theorem C8_same_email_no_write:
  assumes "valid_table db"
      and "get_user_by_auth0_id db a = Some u"
      and "email u = e"
  shows "get_or_create_user db fresh now a e = (db, Inr u)"
proof -
  from assms(2) have mem: "u \<in> set db" and a: "auth0_id u = a"
    by (simp_all add: get_user_by_auth0_id_Some)
  from assms(1) mem have "auth0_id u \<noteq> [] \<and> email u \<noteq> []"
    by (simp add: valid_table_def list_all_iff)
  with a assms(2,3) show ?thesis
    by (auto simp add: get_or_create_user_def)
qed

theorem C8_same_email_no_write_witness:
  "get_or_create_user [alice, bob] 3 7 ''abc'' ''a@x.com'' = ([alice, bob], Inr alice)"
proof -
  have n: "email alice = ''a@x.com''" by (simp add: alice_def)
  from C8_same_email_no_write [OF valid_table_example alice_by_auth0_id n, of 3 7]
  show ?thesis .
qed

section \<open>Properties of the Registration Coordinator\<close>

lemma create_user_events:
  "create_user env a m = (evs, res) \<Longrightarrow> \<not> list_ex is_write evs"
  by (auto simp: create_user_def find_user_by_external_id_def
           split: if_splits sum.splits option.splits list.splits)

text \<open>
  Claim C3. When the upstream create-or-find call fails (the request fails or the
  platform answers with a non-success status), the Registration Coordinator logs and
  raises that same failure, and nothing local is touched: the table after the call is
  the table before it, and no statement was sent to the datastore.
\<close>

theorem C3_upstream_failure:
  assumes "open_wearables_user_id u = None"
      and "create_user env (auth0_id u) (email u) = (evs, Inl e)"
  shows "register_with_open_wearables env db u = (db, evs @ [LogError], Inl e)
       \<and> \<not> list_ex is_write (evs @ [LogError])"
  using assms create_user_events [of env "auth0_id u" "email u" evs "Inl e"]
  by (simp add: register_with_open_wearables_def request_ow_user_id_def)

lemma create_user_down:
  "create_user down_env ''abc'' ''a@x.com'' = ([HttpGet ''abc''], Inl HTTPError)"
  by (simp add: create_user_def find_user_by_external_id_def down_env_def)

theorem C3_upstream_failure_witness:
  "register_with_open_wearables down_env [alice, bob] alice
     = ([alice, bob], [HttpGet ''abc'', LogError], Inl HTTPError)"
proof -
  have a: "open_wearables_user_id alice = None" by (simp add: alice_def)
  have c: "create_user down_env (auth0_id alice) (email alice) = ([HttpGet ''abc''], Inl HTTPError)"
    using create_user_down by (simp add: alice_def)
  from C3_upstream_failure [OF a c, of "[alice, bob]"] show ?thesis by simp
qed

lemma conditional_update_set:
  assumes "distinct (map user_id db)" "get_user_by_id db i = Some r" "open_wearables_user_id r \<noteq> None"
  shows "conditional_update db i v = (db, 0)"
proof -
  have "\<And>x. x \<in> set db \<Longrightarrow> user_id x = i \<Longrightarrow> x = r"
  proof -
    fix x assume "x \<in> set db" "user_id x = i"
    then have "get_user_by_id db i = Some x" using assms(1) get_user_by_id_mem by blast
    with assms(2) show "x = r" by simp
  qed
  then have *: "\<And>x. x \<in> set db \<Longrightarrow> \<not> (user_id x = i \<and> open_wearables_user_id x = None)"
    using assms(3) by auto
  have "filter (\<lambda>r. user_id r = i \<and> open_wearables_user_id r = None) db = []"
    using * by (simp add: filter_empty_conv)
  moreover have "map (\<lambda>r. if user_id r = i \<and> open_wearables_user_id r = None
                then r\<lparr>open_wearables_user_id := Some v\<rparr> else r) db = db"
    using * by (simp add: map_idI)
  ultimately show ?thesis by (simp add: conditional_update_def)
qed

lemma filter_null_row:
  "distinct (map user_id db) \<Longrightarrow> r \<in> set db \<Longrightarrow> open_wearables_user_id r = None \<Longrightarrow>
   length (filter (\<lambda>x. user_id x = user_id r \<and> open_wearables_user_id x = None) db) = 1"
  by (induction db) (auto simp: filter_empty_conv image_iff)

lemma conditional_update_null:
  assumes "distinct (map user_id db)" "get_user_by_id db i = Some r" "open_wearables_user_id r = None"
  shows "snd (conditional_update db i v) = 1"
    and "get_user_by_id (fst (conditional_update db i v)) i = Some (r\<lparr>open_wearables_user_id := Some v\<rparr>)"
proof -
  from assms(2) have mem: "r \<in> set db" and i: "user_id r = i"
    by (simp_all add: get_user_by_id_Some)
  show "snd (conditional_update db i v) = 1"
    using filter_null_row [OF assms(1) mem assms(3)] i by (simp add: conditional_update_def)
  let ?f = "\<lambda>r. if user_id r = i \<and> open_wearables_user_id r = None
                then r\<lparr>open_wearables_user_id := Some v\<rparr> else r"
  have "get_user_by_id (map ?f db) i = map_option ?f (get_user_by_id db i)"
    unfolding get_user_by_id_def by (rule find_map_user_id) simp
  then show "get_user_by_id (fst (conditional_update db i v)) i = Some (r\<lparr>open_wearables_user_id := Some v\<rparr>)"
    using assms(2,3) i by (simp add: conditional_update_def)
qed

lemma register_winner:
  assumes "distinct (map user_id db)"
      and "get_user_by_id db (user_id u) = Some r"
      and "open_wearables_user_id r = None"
      and "open_wearables_user_id u = None"
      and "request_ow_user_id env u = (evs, Inr v)"
      and "execute_ok env" and "commit_ok env" and "refresh_ok env"
  shows "register_with_open_wearables env db u
           = (fst (conditional_update db (user_id u) v),
              evs @ [SqlUpdate (user_id u) v 1, SqlCommit, LogInfo, SqlRefresh (user_id u)],
              Inr (r\<lparr>open_wearables_user_id := Some v\<rparr>))"
proof -
  obtain db' where cu: "conditional_update db (user_id u) v = (db', 1)"
    using conditional_update_null(1) [OF assms(1,2,3), of v] by (cases "conditional_update db (user_id u) v") simp
  then have "execute_and_commit env db u v = (db', [SqlUpdate (user_id u) v 1, SqlCommit], Inr 1)"
    using assms(6,7) by (simp add: execute_and_commit_def)
  moreover have "refresh env db' u = ([SqlRefresh (user_id u)], Inr (r\<lparr>open_wearables_user_id := Some v\<rparr>))"
    using conditional_update_null(2) [OF assms(1,2,3), of v] cu assms(8) by (simp add: refresh_def)
  ultimately show ?thesis
    using assms(4,5) cu by (simp add: register_with_open_wearables_def)
qed

text \<open>
  Claim C4. When another caller has set the linkage already, the conditional update of
  this caller affects zero rows, and that is no error: the call commits, reads the row
  again and returns it, with the linkage that the winner has set.
\<close>

theorem C4_zero_rows:
  assumes "distinct (map user_id db)"
      and "get_user_by_id db (user_id u) = Some r"
      and "open_wearables_user_id r = Some w"
      and "open_wearables_user_id u = None"
      and "request_ow_user_id env u = (evs, Inr v)"
      and "execute_ok env" and "commit_ok env" and "refresh_ok env"
  shows "register_with_open_wearables env db u
           = (db, evs @ [SqlUpdate (user_id u) v 0, SqlCommit, LogInfo, SqlRefresh (user_id u)], Inr r)"
proof -
  have "conditional_update db (user_id u) v = (db, 0)"
    using assms(1,2,3) by (simp add: conditional_update_set)
  then have "execute_and_commit env db u v = (db, [SqlUpdate (user_id u) v 0, SqlCommit], Inr 0)"
    using assms(6,7) by (simp add: execute_and_commit_def)
  moreover have "refresh env db u = ([SqlRefresh (user_id u)], Inr r)"
    using assms(2,8) by (simp add: refresh_def)
  ultimately show ?thesis
    using assms(4,5) by (simp add: register_with_open_wearables_def)
qed

theorem C4_zero_rows_witness:
  "register_with_open_wearables ok_env [alice\<lparr>open_wearables_user_id := Some 55\<rparr>, bob] alice
     = ([alice\<lparr>open_wearables_user_id := Some 55\<rparr>, bob],
        [HttpGet ''abc'', HttpPost ''abc'' ''a@x.com'', SqlUpdate 1 123 0, SqlCommit, LogInfo, SqlRefresh 1],
        Inr (alice\<lparr>open_wearables_user_id := Some 55\<rparr>))"
proof -
  have d: "distinct (map user_id [alice\<lparr>open_wearables_user_id := Some 55\<rparr>, bob])"
    by (simp add: alice_def bob_def)
  have g: "get_user_by_id [alice\<lparr>open_wearables_user_id := Some 55\<rparr>, bob] (user_id alice)
             = Some (alice\<lparr>open_wearables_user_id := Some 55\<rparr>)"
    by (simp add: get_user_by_id_def)
  have w: "open_wearables_user_id (alice\<lparr>open_wearables_user_id := Some 55\<rparr>) = Some 55" by simp
  have n: "open_wearables_user_id alice = None" by (simp add: alice_def)
  have r: "request_ow_user_id ok_env alice = ([HttpGet ''abc'', HttpPost ''abc'' ''a@x.com''], Inr 123)"
    by (simp add: request_ow_user_id_def create_user_def find_user_by_external_id_def ok_env_def
          alice_def py_or_def dict_get_def)
  have e: "execute_ok ok_env" "commit_ok ok_env" "refresh_ok ok_env" by (simp_all add: ok_env_def)
  from C4_zero_rows [OF d g w n r e] show ?thesis by (simp add: alice_def)
qed

text \<open>
  Claim C5. On a user whose linkage is set already, the Registration Coordinator returns
  that user at once and unchanged: the only event is a log line, so no request goes to
  the platform and nothing is written, and the table is as before. The registration
  route's service answers the same way, with the existing id.
\<close>

theorem C5_fast_path:
  assumes "open_wearables_user_id u = Some w"
  shows "register_with_open_wearables env db u = (db, [LogInfo], Inr u)
       \<and> filter (\<lambda>ev. is_upstream_call ev \<or> is_write ev)
            (fst (snd (register_with_open_wearables env db u))) = []
       \<and> register_user env db u
           = (db, [], Inr \<lparr>response_open_wearables_user_id = Some w, already_registered = True\<rparr>)"
  using assms by (simp add: register_with_open_wearables_def register_user_def)

theorem C5_fast_path_witness:
  "register_with_open_wearables down_env [alice\<lparr>open_wearables_user_id := Some 55\<rparr>, bob]
       (alice\<lparr>open_wearables_user_id := Some 55\<rparr>)
     = ([alice\<lparr>open_wearables_user_id := Some 55\<rparr>, bob], [LogInfo],
        Inr (alice\<lparr>open_wearables_user_id := Some 55\<rparr>))
   \<and> register_user down_env [alice\<lparr>open_wearables_user_id := Some 55\<rparr>, bob]
       (alice\<lparr>open_wearables_user_id := Some 55\<rparr>)
     = ([alice\<lparr>open_wearables_user_id := Some 55\<rparr>, bob], [],
        Inr \<lparr>response_open_wearables_user_id = Some 55, already_registered = True\<rparr>)"
  using C5_fast_path [of "alice\<lparr>open_wearables_user_id := Some 55\<rparr>" 55 down_env
                         "[alice\<lparr>open_wearables_user_id := Some 55\<rparr>, bob]"]
  by simp

text \<open>
  Claim C9. The client's \<^verbatim>\<open>create_user\<close> is create-or-return-existing: when the
  platform lists an account for the external id, that account is returned and no
  \<^verbatim>\<open>POST\<close> is sent; when it lists none, one \<^verbatim>\<open>POST\<close> is sent and its answer
  returned. Whichever of the two the answer is, the Registration Coordinator takes the id
  in it as the linkage: it is written to the row that was still null and returned.
\<close>

theorem C9_create_or_return_existing:
  assumes "api_key env \<noteq> []"
  shows "(\<forall>d ds. get_users env x = Inr (d # ds) \<and> d \<noteq> []
            \<longrightarrow> create_user env x m = ([HttpGet x, LogInfo], Inr d))
       \<and> (\<forall>ds. get_users env x = Inr [] \<or> get_users env x = Inr ([] # ds)
            \<longrightarrow> create_user env x m = ([HttpGet x, HttpPost x m], post_users env x m))
       \<and> (\<forall>evs result v r.
             create_user env (auth0_id u) (email u) = (evs, Inr result)
             \<and> UUID (py_or (dict_get result ''id'') (dict_get result ''user_id'')) = Inr v
             \<and> open_wearables_user_id u = None
             \<and> distinct (map user_id db) \<and> get_user_by_id db (user_id u) = Some r
             \<and> open_wearables_user_id r = None
             \<and> execute_ok env \<and> commit_ok env \<and> refresh_ok env
            \<longrightarrow> snd (snd (register_with_open_wearables env db u))
                  = Inr (r\<lparr>open_wearables_user_id := Some v\<rparr>)
                \<and> linkage (fst (register_with_open_wearables env db u)) (user_id u) = Some v)"
proof (intro conjI allI impI)
  fix d ds assume "get_users env x = Inr (d # ds) \<and> d \<noteq> []"
  with assms show "create_user env x m = ([HttpGet x, LogInfo], Inr d)"
    by (cases d) (simp_all add: create_user_def find_user_by_external_id_def)
next
  fix ds assume "get_users env x = Inr [] \<or> get_users env x = Inr ([] # ds)"
  with assms show "create_user env x m = ([HttpGet x, HttpPost x m], post_users env x m)"
    by (auto simp add: create_user_def find_user_by_external_id_def)
next
  fix evs result v r
  assume h: "create_user env (auth0_id u) (email u) = (evs, Inr result)
             \<and> UUID (py_or (dict_get result ''id'') (dict_get result ''user_id'')) = Inr v
             \<and> open_wearables_user_id u = None
             \<and> distinct (map user_id db) \<and> get_user_by_id db (user_id u) = Some r
             \<and> open_wearables_user_id r = None
             \<and> execute_ok env \<and> commit_ok env \<and> refresh_ok env"
  then have rq: "request_ow_user_id env u = (evs, Inr v)"
    by (simp add: request_ow_user_id_def)
  from h have reg: "register_with_open_wearables env db u
           = (fst (conditional_update db (user_id u) v),
              evs @ [SqlUpdate (user_id u) v 1, SqlCommit, LogInfo, SqlRefresh (user_id u)],
              Inr (r\<lparr>open_wearables_user_id := Some v\<rparr>))"
    using register_winner [OF _ _ _ _ rq] by simp
  from reg show "snd (snd (register_with_open_wearables env db u))
                  = Inr (r\<lparr>open_wearables_user_id := Some v\<rparr>)" by simp
  from h reg show "linkage (fst (register_with_open_wearables env db u)) (user_id u) = Some v"
    using conditional_update_null(2) [of db "user_id u" r v] by (simp add: linkage_def)
qed

theorem C9_create_or_return_existing_witness:
  "create_user found_env ''abc'' ''a@x.com''
     = ([HttpGet ''abc'', LogInfo], Inr [(''id'', JUuid 77), (''external_user_id'', JStr ''abc'')])
   \<and> create_user ok_env ''abc'' ''a@x.com''
     = ([HttpGet ''abc'', HttpPost ''abc'' ''a@x.com''], Inr [(''id'', JUuid 123)])
   \<and> snd (snd (register_with_open_wearables found_env [alice, bob] alice))
     = Inr (alice\<lparr>open_wearables_user_id := Some 77\<rparr>)
   \<and> linkage (fst (register_with_open_wearables found_env [alice, bob] alice)) 1 = Some 77
   \<and> snd (snd (register_with_open_wearables ok_env [alice, bob] alice))
     = Inr (alice\<lparr>open_wearables_user_id := Some 123\<rparr>)
   \<and> linkage (fst (register_with_open_wearables ok_env [alice, bob] alice)) 1 = Some 123"
proof -
  have kf: "api_key found_env \<noteq> []" and ko: "api_key ok_env \<noteq> []"
    by (simp_all add: found_env_def ok_env_def)
  have cf: "create_user found_env (auth0_id alice) (email alice)
     = ([HttpGet ''abc'', LogInfo], Inr [(''id'', JUuid 77), (''external_user_id'', JStr ''abc'')])"
    using C9_create_or_return_existing [OF kf, of "''abc''" "''a@x.com''" alice "[alice, bob]"]
    by (simp add: found_env_def alice_def)
  have co: "create_user ok_env (auth0_id alice) (email alice)
     = ([HttpGet ''abc'', HttpPost ''abc'' ''a@x.com''], Inr [(''id'', JUuid 123)])"
    using C9_create_or_return_existing [OF ko, of "''abc''" "''a@x.com''" alice "[alice, bob]"]
    by (simp add: ok_env_def alice_def)
  have db: "distinct (map user_id [alice, bob])" "get_user_by_id [alice, bob] (user_id alice) = Some alice"
    "open_wearables_user_id alice = None"
    by (simp_all add: alice_def bob_def get_user_by_id_def)
  have ef: "execute_ok found_env \<and> commit_ok found_env \<and> refresh_ok found_env"
    by (simp add: found_env_def)
  have eo: "execute_ok ok_env \<and> commit_ok ok_env \<and> refresh_ok ok_env"
    by (simp add: ok_env_def)
  have uf: "UUID (py_or (dict_get [(''id'', JUuid 77), (''external_user_id'', JStr ''abc'')] ''id'')
                       (dict_get [(''id'', JUuid 77), (''external_user_id'', JStr ''abc'')] ''user_id'')) = Inr 77"
    by (simp add: py_or_def dict_get_def)
  have uo: "UUID (py_or (dict_get [(''id'', JUuid 123)] ''id'') (dict_get [(''id'', JUuid 123)] ''user_id'')) = Inr 123"
    by (simp add: py_or_def dict_get_def)
  have rf: "snd (snd (register_with_open_wearables found_env [alice, bob] alice))
              = Inr (alice\<lparr>open_wearables_user_id := Some 77\<rparr>)
          \<and> linkage (fst (register_with_open_wearables found_env [alice, bob] alice)) (user_id alice) = Some 77"
    using C9_create_or_return_existing [OF kf, of "''abc''" "''a@x.com''" alice "[alice, bob]"]
      cf db ef uf by blast
  have ro: "snd (snd (register_with_open_wearables ok_env [alice, bob] alice))
              = Inr (alice\<lparr>open_wearables_user_id := Some 123\<rparr>)
          \<and> linkage (fst (register_with_open_wearables ok_env [alice, bob] alice)) (user_id alice) = Some 123"
    using C9_create_or_return_existing [OF ko, of "''abc''" "''a@x.com''" alice "[alice, bob]"]
      co db eo uo by blast
  from cf co rf ro show ?thesis by (simp add: alice_def)
qed





section \<open>Properties of the authentication dependency\<close>








section \<open>The linkage is written once\<close>

lemma linkage_conditional_update:
  assumes "linkage db i = Some w"
  shows "linkage (fst (conditional_update db j v)) i = Some w"
proof -
  let ?f = "\<lambda>r. if user_id r = j \<and> open_wearables_user_id r = None
                then r\<lparr>open_wearables_user_id := Some v\<rparr> else r"
  have "get_user_by_id (map ?f db) i = map_option ?f (get_user_by_id db i)"
    unfolding get_user_by_id_def by (rule find_map_user_id) simp
  with assms show ?thesis
    by (auto simp add: linkage_def conditional_update_def split: option.splits)
qed

lemma linkage_execute_and_commit:
  "execute_and_commit env db u v = (db', evs, res) \<Longrightarrow> linkage db i = Some w \<Longrightarrow> linkage db' i = Some w"
  using linkage_conditional_update [of db i w "user_id u" v]
  by (auto simp add: execute_and_commit_def split: if_splits prod.splits)

lemma linkage_task_step:
  "task_step env db t = (db', t') \<Longrightarrow> linkage db i = Some w \<Longrightarrow> linkage db' i = Some w"
  by (cases t) (auto simp add: task_step_def split: if_splits prod.splits sum.splits
                     dest: linkage_execute_and_commit)

lemma linkage_register:
  "linkage db i = Some w \<Longrightarrow> linkage (fst (register_with_open_wearables env db u)) i = Some w"
  by (auto simp add: register_with_open_wearables_def split: if_splits prod.splits sum.splits
                     dest: linkage_execute_and_commit)

lemma find_append_Some: "find P xs = Some x \<Longrightarrow> find P (xs @ ys) = Some x"
  by (induction xs) (auto split: if_splits)

lemma linkage_update:
  assumes "linkage db i = Some w"
  shows "linkage (fst (update db now j e)) i = Some w"
proof -
  let ?f = "\<lambda>r. if user_id r = j then r\<lparr>email := e, updated_at := now\<rparr> else r"
  have "get_user_by_id (map ?f db) i = map_option ?f (get_user_by_id db i)"
    unfolding get_user_by_id_def by (rule find_map_user_id) simp
  with assms have "linkage (map ?f db) i = Some w"
    by (auto simp add: linkage_def split: option.splits)
  with assms show ?thesis
    by (auto simp add: update_def Let_def split: option.splits)
qed

lemma linkage_create:
  assumes "linkage db i = Some w"
  shows "linkage (fst (create db fresh now a e)) i = Some w"
  using assms
  by (auto simp add: create_def linkage_def get_user_by_id_def Let_def find_append_Some
           split: option.splits)

lemma linkage_get_or_create_user:
  "linkage db i = Some w \<Longrightarrow> linkage (fst (get_or_create_user db fresh now a e)) i = Some w"
  by (auto simp add: get_or_create_user_def linkage_update linkage_create split: option.splits)

lemma linkage_act:
  "linkage (fst s) i = Some w \<Longrightarrow> linkage (fst (act a s)) i = Some w"
proof (cases s)
  case (Pair db ts)
  assume l: "linkage (fst s) i = Some w"
  show ?thesis
  proof (cases a)
    case (Advance k)
    with Pair l show ?thesis
      by (auto split: prod.splits dest: linkage_task_step)
  next
    case (Begin env u)
    with Pair l show ?thesis by simp
  next
    case (Resolve fresh now x e)
    with Pair l show ?thesis by (simp add: linkage_get_or_create_user)
  qed
qed

text \<open>
  Claim C2. A linkage that a row holds stays as it is. The coordinator writes the field
  through the conditional update only, which leaves a row alone whose field is set, and
  the resolver writes the email and adds rows. So along every sequence of actions of the
  system (steps of calls in flight in any interleaving, new calls on objects of any age,
  resolver calls) and through every single call of the coordinator, the field of a row
  is set at most once, and never overwritten or cleared.
\<close>

theorem C2_linkage_never_changes:
  assumes "linkage db i = Some w"
  shows "linkage (fst (run acts (db, ts))) i = Some w
       \<and> linkage (fst (register_with_open_wearables env db u)) i = Some w"
proof -
  have "\<And>s. linkage (fst s) i = Some w \<Longrightarrow> linkage (fst (run acts s)) i = Some w"
  proof (induction acts)
    case Nil
    then show ?case by simp
  next
    case (Cons a acts)
    then show ?case by (simp add: linkage_act)
  qed
  with assms show ?thesis by (simp add: linkage_register)
qed

theorem C2_linkage_never_changes_witness:
  "linkage [alice\<lparr>open_wearables_user_id := Some 55\<rparr>, bob] 1 = Some 55
   \<and> linkage (fst (run [Begin ok_env alice, Advance 0, Resolve 3 7 ''abc'' ''c@x.com'',
                        Advance 0, Advance 0]
                   ([alice\<lparr>open_wearables_user_id := Some 55\<rparr>, bob], []))) 1 = Some 55
   \<and> linkage (fst (register_with_open_wearables ok_env
                     [alice\<lparr>open_wearables_user_id := Some 55\<rparr>, bob] alice)) 1 = Some 55"
proof -
  have l: "linkage [alice\<lparr>open_wearables_user_id := Some 55\<rparr>, bob] 1 = Some 55"
    by (simp add: linkage_def get_user_by_id_def alice_def)
  from C2_linkage_never_changes [OF l] l show ?thesis by blast
qed

section \<open>Concurrent registration\<close>

text \<open>
  Three steps of the task are one call of the sequential function: the same table and
  the same result.
\<close>

lemma task_steps_sequential:
  assumes "task_step env db (Ready u) = (db1, t1)"
      and "task_step env db1 t1 = (db2, t2)"
      and "task_step env db2 t2 = (db3, t3)"
  shows "db3 = fst (register_with_open_wearables env db u)
       \<and> (\<exists>k. t3 = Finished k (snd (snd (register_with_open_wearables env db u))))"
  using assms
  by (auto simp add: task_step_def register_with_open_wearables_def
           split: if_splits prod.splits sum.splits)

lemma list_all_update: "list_all P xs \<Longrightarrow> P y \<Longrightarrow> list_all P (xs[i := y])"
  by (auto simp: list_all_iff dest: set_update_subset_insert [THEN subsetD])

lemma length_filter_update:
  "i < length xs \<Longrightarrow>
   length (filter P (xs[i := y])) + (if P (xs ! i) then 1 else 0)
     = length (filter P xs) + (if P y then 1 else 0)"
proof (induction xs arbitrary: i)
  case Nil
  then show ?case by simp
next
  case (Cons x xs)
  then show ?case by (cases i) auto
qed

lemma task_inv_mono: "task_inv u None t \<Longrightarrow> task_inv u l t"
  by (cases t) auto

lemma conditional_update_ids: "map user_id (fst (conditional_update db i v)) = map user_id db"
  by (simp add: conditional_update_def comp_def)

lemma good_env_request:
  assumes "good_env env u"
  obtains evs v where "request_ow_user_id env u = (evs, Inr v)"
proof -
  obtain evs res where r: "request_ow_user_id env u = (evs, res)"
    by (cases "request_ow_user_id env u")
  with assms obtain v where "res = Inr v" by (cases res) (auto simp: good_env_def)
  with r that show ?thesis by simp
qed

text \<open>One step of one call keeps the invariant and moves that call one stage on.\<close>

lemma advance_step:
  assumes inv: "system_inv u (db, ts)"
      and null: "open_wearables_user_id u = None"
      and i: "i < length ts"
  shows "\<exists>db' t'. act (Advance i) (db, ts) = (db', ts[i := (fst (ts ! i), t')])
           \<and> stage t' = min 3 (Suc (stage (snd (ts ! i))))
           \<and> system_inv u (db', ts[i := (fst (ts ! i), t')])"
proof -
  let ?l = "linkage db (user_id u)"
  obtain env t where ti: "ts ! i = (env, t)" by (cases "ts ! i")
  from inv have d: "distinct (map user_id db)"
    and ex: "get_user_by_id db (user_id u) \<noteq> None"
    and all: "list_all (\<lambda>c. good_env (fst c) u \<and> task_inv u ?l (snd c)) ts"
    and w: "length (filter won ts) = (if ?l = None then 0 else 1)"
    by (simp_all add: system_inv_def)
  from all i ti have g: "good_env env u" and tinv: "task_inv u ?l t"
    by (auto simp: list_all_length)
  from g have ok: "execute_ok env" "commit_ok env" "refresh_ok env"
    by (simp_all add: good_env_def)
  from ex obtain r where r: "get_user_by_id db (user_id u) = Some r" by auto
  then have lr: "?l = open_wearables_user_id r" by (simp add: linkage_def)
  have fin: "?thesis"
    if "task_step env db t = (db', t')" "stage t' = min 3 (Suc (stage t))"
       "system_inv u (db', ts[i := (env, t')])" for db' t'
    using that i ti by (intro exI [of _ db'] exI [of _ t']) simp
  show ?thesis
  proof (cases t)
    case (Ready u')
    with tinv have [simp]: "u' = u" by simp
    from g obtain evs v where rq: "request_ow_user_id env u = (evs, Inr v)"
      by (rule good_env_request)
    have st: "task_step env db t = (db, Requested u v)"
      using Ready null rq by (simp add: task_step_def)
    have a: "list_all (\<lambda>c. good_env (fst c) u \<and> task_inv u ?l (snd c)) (ts[i := (env, Requested u v)])"
      using all g by (intro list_all_update) simp_all
    have "length (filter won (ts[i := (env, Requested u v)])) = length (filter won ts)"
      using length_filter_update [OF i, of won "(env, Requested u v)"] ti Ready
      by (simp add: won_def)
    with d ex a w have "system_inv u (db, ts[i := (env, Requested u v)])"
      by (simp add: system_inv_def)
    with st Ready show ?thesis by (intro fin) simp_all
  next
    case (Requested u' v)
    with tinv have [simp]: "u' = u" by simp
    show ?thesis
    proof (cases "?l")
      case None
      with lr have rn: "open_wearables_user_id r = None" by simp
      obtain db1 where cu: "conditional_update db (user_id u) v = (db1, 1)"
        using conditional_update_null(1) [OF d r rn, of v]
        by (cases "conditional_update db (user_id u) v") simp
      have gr: "get_user_by_id db1 (user_id u) = Some (r\<lparr>open_wearables_user_id := Some v\<rparr>)"
        using conditional_update_null(2) [OF d r rn, of v] cu by simp
      then have l': "linkage db1 (user_id u) = Some v" by (simp add: linkage_def)
      have st: "task_step env db t = (db1, Written u 1)"
        using Requested ok cu by (simp add: task_step_def execute_and_commit_def)
      have d': "distinct (map user_id db1)"
        using d conditional_update_ids [of db "user_id u" v] cu by simp
      have "list_all (\<lambda>c. good_env (fst c) u \<and> task_inv u (Some v) (snd c)) ts"
        using all None by (auto simp: list_all_iff intro: task_inv_mono)
      then have a: "list_all (\<lambda>c. good_env (fst c) u \<and> task_inv u (Some v) (snd c))
                      (ts[i := (env, Written u 1)])"
        using g by (intro list_all_update) simp_all
      have "length (filter won (ts[i := (env, Written u 1)])) = Suc (length (filter won ts))"
        using length_filter_update [OF i, of won "(env, Written u 1)"] ti Requested
        by (simp add: won_def)
      with w None have "length (filter won (ts[i := (env, Written u 1)])) = 1" by simp
      with d' gr a l' have "system_inv u (db1, ts[i := (env, Written u 1)])"
        by (simp add: system_inv_def)
      with st Requested show ?thesis by (intro fin) simp_all
    next
      case (Some x)
      with lr have rs: "open_wearables_user_id r \<noteq> None" by (metis option.distinct(1))
      have cu: "conditional_update db (user_id u) v = (db, 0)"
        using conditional_update_set [OF d r rs] .
      have st: "task_step env db t = (db, Written u 0)"
        using Requested ok cu by (simp add: task_step_def execute_and_commit_def)
      have a: "list_all (\<lambda>c. good_env (fst c) u \<and> task_inv u ?l (snd c)) (ts[i := (env, Written u 0)])"
        using all g Some by (intro list_all_update) simp_all
      have "length (filter won (ts[i := (env, Written u 0)])) = length (filter won ts)"
        using length_filter_update [OF i, of won "(env, Written u 0)"] ti Requested
        by (simp add: won_def)
      with d ex a w have "system_inv u (db, ts[i := (env, Written u 0)])"
        by (simp add: system_inv_def)
      with st Requested show ?thesis by (intro fin) simp_all
    qed
  next
    case (Written u' k)
    with tinv have [simp]: "u' = u" and ln: "?l \<noteq> None" and k: "k \<le> 1" by simp_all
    have st: "task_step env db t = (db, Finished (Some k) (Inr r))"
      using Written ok r by (simp add: task_step_def refresh_def)
    have a: "list_all (\<lambda>c. good_env (fst c) u \<and> task_inv u ?l (snd c))
               (ts[i := (env, Finished (Some k) (Inr r))])"
      using all g ln k lr by (intro list_all_update) simp_all
    have "length (filter won (ts[i := (env, Finished (Some k) (Inr r))])) = length (filter won ts)"
      using length_filter_update [OF i, of won "(env, Finished (Some k) (Inr r))"] ti Written
      by (simp add: won_def)
    with d ex a w have "system_inv u (db, ts[i := (env, Finished (Some k) (Inr r))])"
      by (simp add: system_inv_def)
    with st Written show ?thesis by (intro fin) simp_all
  next
    case (Finished k res)
    have st: "task_step env db t = (db, t)"
      using Finished by (simp add: task_step_def)
    have same: "ts[i := (env, t)] = ts" using ti by (metis list_update_id)
    have s3: "stage t = min 3 (Suc (stage t))" using Finished by simp
    from inv same have "system_inv u (db, ts[i := (env, t)])" by simp
    with st s3 show ?thesis by (rule fin)
  qed
qed

lemma stage_le_3: "stage t \<le> 3"
  by (cases t) simp_all

lemma run_advance:
  assumes null: "open_wearables_user_id u = None"
  shows "system_inv u (db, ts) \<Longrightarrow> run (map Advance sched) (db, ts) = (db', ts') \<Longrightarrow>
         system_inv u (db', ts') \<and> length ts' = length ts
         \<and> (\<forall>j < length ts. stage (snd (ts' ! j)) = min 3 (stage (snd (ts ! j)) + count_list sched j))"
proof (induction sched arbitrary: db ts)
  case Nil
  then show ?case by (simp add: min_absorb2 stage_le_3)
next
  case (Cons i sched)
  show ?case
  proof (cases "i < length ts")
    case True
    from advance_step [OF Cons.prems(1) null True]
    obtain db1 t1 where a: "act (Advance i) (db, ts) = (db1, ts[i := (fst (ts ! i), t1)])"
      and st: "stage t1 = min 3 (Suc (stage (snd (ts ! i))))"
      and inv1: "system_inv u (db1, ts[i := (fst (ts ! i), t1)])"
      by blast
    let ?ts1 = "ts[i := (fst (ts ! i), t1)]"
    from Cons.prems(2) a have r: "run (map Advance sched) (db1, ?ts1) = (db', ts')" by simp
    from Cons.IH [OF inv1 r]
    have inv': "system_inv u (db', ts')" and len: "length ts' = length ts"
      and stg: "\<forall>j < length ts. stage (snd (ts' ! j))
                  = min 3 (stage (snd (?ts1 ! j)) + count_list sched j)"
      by simp_all
    have "stage (snd (ts' ! j)) = min 3 (stage (snd (ts ! j)) + count_list (i # sched) j)"
      if j: "j < length ts" for j
    proof (cases "j = i")
      case True
      with stg j st show ?thesis by simp
    next
      case False
      with stg j show ?thesis by simp
    qed
    with inv' len show ?thesis by simp
  next
    case False
    with Cons.prems(2) have r: "run (map Advance sched) (db, ts) = (db', ts')" by simp
    from Cons.IH [OF Cons.prems(1) r] False show ?thesis by auto
  qed
qed

lemma stage_3: "stage t = 3 \<Longrightarrow> \<exists>k res. t = Finished k res"
  by (cases t) simp_all

lemma finished_inv:
  assumes "task_inv u l t" and "stage t = 3"
  shows "has_returned t \<and> returned_id t = l \<and> l \<noteq> None
         \<and> (rowcount_of t = Some 0 \<or> rowcount_of t = Some 1)"
proof -
  from assms(2) obtain k res where t: "t = Finished k res" using stage_3 by blast
  with assms(1) obtain n r where "k = Some n" "n \<le> 1" "res = Inr r" "open_wearables_user_id r = l" "l \<noteq> None"
    by (cases k; cases res) auto
  with t show ?thesis by (cases n) auto
qed

lemma won_or_lost:
  "\<forall>c \<in> set cs. lost c \<noteq> won c \<Longrightarrow> length (filter lost cs) + length (filter won cs) = length cs"
  by (induction cs) auto

text \<open>
  Claim C1. A user row whose linkage is null, and \<open>N \<ge> 2\<close> concurrent calls of the
  Registration Coordinator on that user, each in surroundings without failure and each
  run to its end (three steps), interleaved in any order: exactly one of the \<open>N\<close>
  conditional updates affects one row, the other \<open>N - 1\<close> affect none, every call
  returns, and all of them return the one linkage that the row then holds.
\<close>

theorem C1_concurrent_registration:
  assumes "distinct (map user_id db)"
      and "get_user_by_id db (user_id u) = Some r"
      and "open_wearables_user_id r = None"
      and "open_wearables_user_id u = None"
      and "2 \<le> length envs"
      and "list_all (\<lambda>env. good_env env u) envs"
      and "list_all (\<lambda>i. 3 \<le> count_list sched i) [0..<length envs]"
      and "run (map Advance sched) (db, map (\<lambda>env. (env, Ready u)) envs) = (db', ts')"
  shows "length ts' = length envs
       \<and> length (filter won ts') = 1
       \<and> length (filter lost ts') = length envs - 1
       \<and> linkage db' (user_id u) \<noteq> None
       \<and> list_all (\<lambda>c. has_returned (snd c) \<and> returned_id (snd c) = linkage db' (user_id u)) ts'"
proof -
  let ?ts = "map (\<lambda>env. (env, Ready u)) envs"
  let ?l = "linkage db' (user_id u)"
  have l0: "linkage db (user_id u) = None" using assms(2,3) by (simp add: linkage_def)
  have "filter won ?ts = []" by (simp add: filter_empty_conv won_def)
  with assms(1,2,6) l0 have inv0: "system_inv u (db, ?ts)"
    by (simp add: system_inv_def list_all_iff)
  from run_advance [OF assms(4) inv0 assms(8)]
  have inv: "system_inv u (db', ts')" and len: "length ts' = length envs"
    and stg: "\<forall>j < length envs. stage (snd (ts' ! j)) = min 3 (count_list sched j)"
    by simp_all
  from assms(7) have "\<forall>j < length envs. 3 \<le> count_list sched j"
    by (simp add: list_all_iff)
  with stg have s3: "\<forall>j < length ts'. stage (snd (ts' ! j)) = 3"
    using len by simp
  from inv have tinv: "\<forall>j < length ts'. task_inv u ?l (snd (ts' ! j))"
    and w: "length (filter won ts') = (if ?l = None then 0 else 1)"
    by (simp_all add: system_inv_def list_all_length)
  have fin: "has_returned (snd c) \<and> returned_id (snd c) = ?l \<and> ?l \<noteq> None
             \<and> (rowcount_of (snd c) = Some 0 \<or> rowcount_of (snd c) = Some 1)"
    if "c \<in> set ts'" for c
  proof -
    from that obtain j where "j < length ts'" "ts' ! j = c" by (auto simp: in_set_conv_nth)
    with s3 tinv show ?thesis using finished_inv by blast
  qed
  from assms(5) len obtain c where "c \<in> set ts'" by (cases ts') auto
  with fin have ln: "?l \<noteq> None" by blast
  with w have won1: "length (filter won ts') = 1" by simp
  have "\<forall>c \<in> set ts'. lost c \<noteq> won c" using fin by (auto simp: won_def lost_def)
  then have "length (filter lost ts') + length (filter won ts') = length ts'"
    by (rule won_or_lost)
  with won1 len have lost1: "length (filter lost ts') = length envs - 1" by simp
  have "list_all (\<lambda>c. has_returned (snd c) \<and> returned_id (snd c) = ?l) ts'"
    using fin by (simp add: list_all_iff)
  with len won1 lost1 ln show ?thesis by simp
qed

lemma request_ok_env: "request_ow_user_id ok_env alice = ([HttpGet ''abc'', HttpPost ''abc'' ''a@x.com''], Inr 123)"
  by (simp add: request_ow_user_id_def create_user_def find_user_by_external_id_def ok_env_def
        alice_def py_or_def dict_get_def)

lemma request_found_env: "request_ow_user_id found_env alice = ([HttpGet ''abc'', LogInfo], Inr 77)"
  by (simp add: request_ow_user_id_def create_user_def find_user_by_external_id_def found_env_def
        alice_def py_or_def dict_get_def)

lemma two_callers_run:
  "run (map Advance [0, 1, 1, 0, 1, 0]) ([alice, bob], map (\<lambda>env. (env, Ready alice)) [ok_env, found_env])
     = ([alice\<lparr>open_wearables_user_id := Some 77\<rparr>, bob],
        [(ok_env, Finished (Some 0) (Inr (alice\<lparr>open_wearables_user_id := Some 77\<rparr>))),
         (found_env, Finished (Some 1) (Inr (alice\<lparr>open_wearables_user_id := Some 77\<rparr>)))])"
  by (simp add: task_step_def request_ok_env request_found_env execute_and_commit_def
        conditional_update_def refresh_def get_user_by_id_def)
     (simp add: alice_def bob_def ok_env_def found_env_def)

theorem C1_concurrent_registration_witness:
  "length (filter won (snd (run (map Advance [0, 1, 1, 0, 1, 0])
            ([alice, bob], map (\<lambda>env. (env, Ready alice)) [ok_env, found_env])))) = 1
   \<and> length (filter lost (snd (run (map Advance [0, 1, 1, 0, 1, 0])
            ([alice, bob], map (\<lambda>env. (env, Ready alice)) [ok_env, found_env])))) = 1
   \<and> linkage (fst (run (map Advance [0, 1, 1, 0, 1, 0])
            ([alice, bob], map (\<lambda>env. (env, Ready alice)) [ok_env, found_env]))) 1 = Some 77
   \<and> map (\<lambda>c. returned_id (snd c)) (snd (run (map Advance [0, 1, 1, 0, 1, 0])
            ([alice, bob], map (\<lambda>env. (env, Ready alice)) [ok_env, found_env]))) = [Some 77, Some 77]"
proof -
  have d: "distinct (map user_id [alice, bob])" by (simp add: alice_def bob_def)
  have g: "get_user_by_id [alice, bob] (user_id alice) = Some alice"
    by (simp add: get_user_by_id_def)
  have n: "open_wearables_user_id alice = None" by (simp add: alice_def)
  have two: "2 \<le> length [ok_env, found_env]" by simp
  have good: "list_all (\<lambda>env. good_env env alice) [ok_env, found_env]"
    by (simp add: good_env_def request_ok_env request_found_env) (simp add: ok_env_def found_env_def)
  have sched: "list_all (\<lambda>i. 3 \<le> count_list [0, 1, 1, 0, 1, 0] i) [0..<length [ok_env, found_env]]"
    by (simp add: upt_rec)
  note c1 = C1_concurrent_registration [OF d g n n two good sched two_callers_run]
  from c1 two_callers_run show ?thesis
    by (simp add: linkage_def get_user_by_id_def alice_def)
qed

end
